theory Spec2Isabelle
  imports Complex_Main "HOL-Library.Multiset"
begin

section \<open>Robust estimators: median, interquartile range, median absolute deviation\<close>

text \<open>
  The notebook \<^verbatim>\<open>4.2.ipynb\<close> defines three estimators over a pandas Series:
  \<^verbatim>\<open>compute_median\<close>, \<^verbatim>\<open>compute_iqr\<close> and \<^verbatim>\<open>compute_mad\<close>. A Series is modelled by the
  list of its values in positional order (the index labels are never read: every access is
  positional, through \<^verbatim>\<open>iloc\<close>). A Python exception is the \<open>Inl\<close> branch of a sum type.
  The code is modelled twice. First over the real numbers, the idealisation of the Series'
  floats that the specification's data model uses: this settles which computation each
  estimator performs and when it fails. Then, for the median and the interquartile range,
  over float64 values with rounding and overflow: this settles the order properties of
  their results, which overflow can break.
\<close>

subsection \<open>The pandas operations the code calls\<close>

datatype error = IndexError

text \<open>\<^verbatim>\<open>a.sort_values()\<close>: the values in ascending order.\<close>

definition sort_values :: "real list \<Rightarrow> real list" where
  "sort_values a = sort a"

text \<open>
  \<^verbatim>\<open>s.iloc[i]\<close>: the value at position \<open>i\<close>; a negative position counts from the end,
  and a position outside \<open>-n \<dots> n-1\<close> raises \<^verbatim>\<open>IndexError\<close>.
\<close>

definition iloc :: "real list \<Rightarrow> int \<Rightarrow> error + real" where
  "iloc s i =
     (let n = int (length s); j = (if i < 0 then n + i else i)
      in if 0 \<le> j \<and> j < n then Inr (s ! nat j) else Inl IndexError)"

text \<open>
  \<^verbatim>\<open>s.iloc[:i]\<close> and \<^verbatim>\<open>s.iloc[i:]\<close>: slices never raise; a negative bound counts from the
  end, and a bound beyond either end is clipped.
\<close>

definition iloc_upto :: "real list \<Rightarrow> int \<Rightarrow> real list" where
  "iloc_upto s i = take (nat (if i < 0 then int (length s) + i else i)) s"

definition iloc_from :: "real list \<Rightarrow> int \<Rightarrow> real list" where
  "iloc_from s i = drop (nat (if i < 0 then int (length s) + i else i)) s"

subsection \<open>The estimators\<close>

text \<open>
  \<^verbatim>\<open>
  def compute_median(a):
      sorted_a = a.sort_values()
      idx = len(sorted_a) // 2
      if len(a)%2 == 1:
          median = sorted_a.iloc[idx]
      else:
          median = (sorted_a.iloc[idx-1] + sorted_a.iloc[idx]) / 2
      return float(median)
  \<close>
\<close>

definition compute_median :: "real list \<Rightarrow> error + real" where
  "compute_median a =
     (let sorted_a = sort_values a;
          idx = int (length sorted_a) div 2
      in if length a mod 2 = 1 then iloc sorted_a idx
         else (case iloc sorted_a (idx - 1) of
                 Inl e \<Rightarrow> Inl e
               | Inr lo \<Rightarrow>
                   (case iloc sorted_a idx of
                      Inl e \<Rightarrow> Inl e
                    | Inr hi \<Rightarrow> Inr ((lo + hi) / 2))))"

text \<open>
  \<^verbatim>\<open>
  def compute_iqr(a):
      sorted_a = a.sort_values()
      idx = len(sorted_a) // 2
      if len(a)%2 == 1:
          q1 = compute_median(sorted_a.iloc[:idx])
          q3 = compute_median(sorted_a.iloc[idx+1:])
      else:
          q1 = compute_median(sorted_a.iloc[:idx])
          q3 = compute_median(sorted_a.iloc[idx:])
      return q3 - q1
  \<close>
\<close>

definition compute_iqr :: "real list \<Rightarrow> error + real" where
  "compute_iqr a =
     (let sorted_a = sort_values a;
          idx = int (length sorted_a) div 2
      in if length a mod 2 = 1 then
           (case compute_median (iloc_upto sorted_a idx) of
              Inl e \<Rightarrow> Inl e
            | Inr q1 \<Rightarrow>
                (case compute_median (iloc_from sorted_a (idx + 1)) of
                   Inl e \<Rightarrow> Inl e
                 | Inr q3 \<Rightarrow> Inr (q3 - q1)))
         else
           (case compute_median (iloc_upto sorted_a idx) of
              Inl e \<Rightarrow> Inl e
            | Inr q1 \<Rightarrow>
                (case compute_median (iloc_from sorted_a idx) of
                   Inl e \<Rightarrow> Inl e
                 | Inr q3 \<Rightarrow> Inr (q3 - q1))))"

text \<open>
  \<^verbatim>\<open>
  def compute_mad(a):
      median = compute_median(a)
      deviations = abs(a - median)
      return compute_median(deviations)
  \<close>
  \<open>deviations\<close> is the elementwise \<^verbatim>\<open>abs(a - median)\<close>.
\<close>

definition deviations :: "real list \<Rightarrow> real \<Rightarrow> real list" where
  "deviations a median = map (\<lambda>v. \<bar>v - median\<bar>) a"

definition compute_mad :: "real list \<Rightarrow> error + real" where
  "compute_mad a =
     (case compute_median a of
        Inl e \<Rightarrow> Inl e
      | Inr median \<Rightarrow> compute_median (deviations a median))"

subsection \<open>The estimators as the specification words them\<close>

text \<open>
  The specification's median: sort ascending, let \<open>idx = n // 2\<close>; the element at \<open>idx\<close>
  when \<open>n\<close> is odd, the average of the elements at \<open>idx - 1\<close> and \<open>idx\<close> when \<open>n\<close> is even.
\<close>

definition median_spec :: "real list \<Rightarrow> real" where
  "median_spec S =
     (let sorted = sort S; n = length S; idx = n div 2
      in if n mod 2 = 1 then sorted ! idx
         else (sorted ! (idx - 1) + sorted ! idx) / 2)"

text \<open>
  The specification's interquartile range: sort ascending, let \<open>idx = n // 2\<close>;
  \<open>q1 = median(sorted[0:idx])\<close>; \<open>q3 = median(sorted[idx+1:n])\<close> when \<open>n\<close> is odd and
  \<open>median(sorted[idx:n])\<close> when \<open>n\<close> is even; the result is \<open>q3 - q1\<close>.
\<close>

definition iqr_spec :: "real list \<Rightarrow> real" where
  "iqr_spec S =
     (let sorted = sort S; n = length S; idx = n div 2;
          q1 = median_spec (take idx sorted);
          q3 = (if n mod 2 = 1 then median_spec (drop (idx + 1) sorted)
                else median_spec (drop idx sorted))
      in q3 - q1)"

text \<open>
  The specification's median absolute deviation: the median of \<open>|values[i] - m|\<close>, where
  \<open>m\<close> is the median of the values; no scaling factor.
\<close>

definition mad_spec :: "real list \<Rightarrow> real" where
  "mad_spec S = median_spec (map (\<lambda>v. \<bar>v - median_spec S\<bar>) S)"

subsection \<open>The estimators over float64 values\<close>

text \<open>
  The Series that the notebook builds hold float64 values, so the arithmetic of the code
  is that of IEEE doubles: the exact result of an operation is rounded, a rounded result
  beyond the largest finite double becomes an infinity, and the difference of two equal
  infinities is NaN. Which computation is performed does not depend on the arithmetic,
  but an order property of the result does; for those the same code is modelled once more
  with the float64 operations. A finite double is the real number it denotes. The rounding
  function \<open>rd\<close> of the format (to the nearest double, the exponent unbounded above) is a
  parameter.
\<close>

datatype f64 = NInf | Fin real | PInf | NaN

text \<open>The largest finite double, \<^verbatim>\<open>(2 - 2**-52) * 2**1023\<close>.\<close>

definition max_float :: real where
  "max_float = (2 - 1 / 2 ^ 52) * 2 ^ 1023"

text \<open>The double delivered for an operation whose exact result is \<open>r\<close>.\<close>

definition f64_result :: "(real \<Rightarrow> real) \<Rightarrow> real \<Rightarrow> f64" where
  "f64_result rd r =
     (let y = rd r
      in if max_float < y then PInf else if y < - max_float then NInf else Fin y)"

text \<open>\<^verbatim>\<open>x + y\<close> on two finite doubles.\<close>

definition f64_add :: "(real \<Rightarrow> real) \<Rightarrow> real \<Rightarrow> real \<Rightarrow> f64" where
  "f64_add rd x y = f64_result rd (x + y)"

text \<open>\<^verbatim>\<open>x / 2\<close>.\<close>

fun f64_div2 :: "(real \<Rightarrow> real) \<Rightarrow> f64 \<Rightarrow> f64" where
  "f64_div2 rd (Fin s) = f64_result rd (s / 2)"
| "f64_div2 rd PInf = PInf"
| "f64_div2 rd NInf = NInf"
| "f64_div2 rd NaN = NaN"


text \<open>\<^verbatim>\<open>x <= y\<close>: false as soon as one side is NaN.\<close>

fun f64_le :: "f64 \<Rightarrow> f64 \<Rightarrow> bool" where
  "f64_le NaN y = False"
| "f64_le x NaN = False"
| "f64_le NInf y = True"
| "f64_le x PInf = True"
| "f64_le (Fin a) (Fin b) = (a \<le> b)"
| "f64_le x y = False"

text \<open>
  \<^verbatim>\<open>compute_median\<close> on a Series of finite doubles: the odd branch returns an element,
  the even branch adds the two middle elements and halves the sum; \<^verbatim>\<open>float(median)\<close>
  leaves a double as it is.
\<close>

definition compute_median_f64 :: "(real \<Rightarrow> real) \<Rightarrow> real list \<Rightarrow> error + f64" where
  "compute_median_f64 rd a =
     (let sorted_a = sort_values a;
          idx = int (length sorted_a) div 2
      in if length a mod 2 = 1 then
           (case iloc sorted_a idx of
              Inl e \<Rightarrow> Inl e
            | Inr v \<Rightarrow> Inr (Fin v))
         else (case iloc sorted_a (idx - 1) of
                 Inl e \<Rightarrow> Inl e
               | Inr lo \<Rightarrow>
                   (case iloc sorted_a idx of
                      Inl e \<Rightarrow> Inl e
                    | Inr hi \<Rightarrow> Inr (f64_div2 rd (f64_add rd lo hi)))))"


text \<open>
  What is used of the rounding function: it is monotone, zero is a double, and the double
  of a double is a double (the exponent being unbounded above).
\<close>

definition rounding :: "(real \<Rightarrow> real) \<Rightarrow> bool" where
  "rounding rd \<longleftrightarrow> mono rd \<and> rd 0 = 0 \<and> (\<forall>x. rd x = x \<longrightarrow> rd (2 * x) = 2 * x)"

text \<open>A sequence of finite doubles: every value is a double and is not beyond the largest one.\<close>

definition f64_values :: "(real \<Rightarrow> real) \<Rightarrow> real list \<Rightarrow> bool" where
  "f64_values rd S = list_all (\<lambda>x. rd x = x \<and> \<bar>x\<bar> \<le> max_float) S"

text \<open>The value the float64 median computes on a non-empty sequence.\<close>

definition median_f64 :: "(real \<Rightarrow> real) \<Rightarrow> real list \<Rightarrow> f64" where
  "median_f64 rd S =
     (let sorted = sort S; idx = length S div 2
      in if length S mod 2 = 1 then Fin (sorted ! idx)
         else f64_div2 rd (f64_add rd (sorted ! (idx - 1)) (sorted ! idx)))"

section \<open>Auxiliary facts\<close>

lemma iloc_nth: "i < length s \<Longrightarrow> iloc s (int i) = Inr (s ! i)"
  by (simp add: iloc_def)

lemma compute_median_value:
  assumes "S \<noteq> []"
  shows "compute_median S = Inr (median_spec S)"
proof -
  define k where "k = length S div 2"
  have idx: "int (length (sort S)) div 2 = int k"
    by (simp add: k_def zdiv_int)
  have hi: "iloc (sort S) (int k) = Inr (sort S ! k)"
    using assms by (intro iloc_nth) (simp add: k_def)
  show ?thesis
  proof (cases "length S mod 2 = 1")
    case True
    with hi idx show ?thesis
      by (simp add: compute_median_def median_spec_def sort_values_def k_def Let_def)
  next
    case False
    with assms have pos: "1 \<le> k"
      unfolding k_def by (cases S) (auto simp: Suc_le_eq)
    then have eq: "int k - 1 = int (k - 1)"
      by (simp add: of_nat_diff)
    have "k - 1 < length (sort S)"
      using pos by (simp add: k_def)
    then have "iloc (sort S) (int (k - 1)) = Inr (sort S ! (k - 1))"
      by (rule iloc_nth)
    then have lo: "iloc (sort S) (int k - 1) = Inr (sort S ! (k - 1))"
      by (simp only: eq)
    have "compute_median S = Inr ((sort S ! (k - 1) + sort S ! k) / 2)"
      unfolding compute_median_def sort_values_def Let_def idx
      using False by (simp add: lo hi)
    also have "(sort S ! (k - 1) + sort S ! k) / 2 = median_spec S"
      using False by (simp add: median_spec_def k_def Let_def)
    finally show ?thesis .
  qed
qed

lemma sort_cong_mset: "mset S' = mset S \<Longrightarrow> sort S' = sort (S::real list)"
  by (metis sorted_list_of_multiset_mset)

lemma median_spec_ge:
  assumes "S \<noteq> []" and "\<forall>x\<in>set S. lo \<le> x"
  shows "lo \<le> median_spec S"
proof -
  have mem: "lo \<le> sort S ! i" if "i < length S" for i
  proof -
    from that have "sort S ! i \<in> set (sort S)" by (intro nth_mem) simp
    with assms(2) show ?thesis by simp
  qed
  from assms(1) have "length S div 2 < length S" by simp
  then have a: "lo \<le> sort S ! (length S div 2)" by (rule mem)
  from assms(1) have "length S div 2 - 1 < length S" by (cases S) auto
  then have b: "lo \<le> sort S ! (length S div 2 - 1)" by (rule mem)
  from a b show ?thesis
    by (simp add: median_spec_def Let_def)
qed

lemma compute_iqr_value:
  assumes "2 \<le> length S"
  shows "compute_iqr S = Inr (iqr_spec S)"
proof -
  define k where "k = length S div 2"
  have idx: "int (length (sort S)) div 2 = int k"
    by (simp add: k_def zdiv_int)
  from assms have k1: "1 \<le> k" by (simp add: k_def)
  have lower: "iloc_upto (sort S) (int k) = take k (sort S)"
    by (simp add: iloc_upto_def)
  have upper_even: "iloc_from (sort S) (int k) = drop k (sort S)"
    by (simp add: iloc_from_def)
  have upper_odd: "iloc_from (sort S) (int k + 1) = drop (Suc k) (sort S)"
    by (simp add: iloc_from_def nat_add_distrib)
  have len: "length (take k (sort S)) = k"
    by (simp add: k_def)
  have "take k (sort S) \<noteq> []"
  proof
    assume "take k (sort S) = []"
    then have "length (take k (sort S)) = 0" by (simp only: list.size)
    with len k1 show False by simp
  qed
  then have q1: "compute_median (take k (sort S)) = Inr (median_spec (take k (sort S)))"
    by (rule compute_median_value)
  show ?thesis
  proof (cases "length S mod 2 = 1")
    case True
    with assms have "k + 1 < length S" unfolding k_def by presburger
    then have "drop (Suc k) (sort S) \<noteq> []" by simp
    then have q3: "compute_median (drop (Suc k) (sort S)) = Inr (median_spec (drop (Suc k) (sort S)))"
      by (rule compute_median_value)
    have "compute_iqr S = Inr (median_spec (drop (Suc k) (sort S)) - median_spec (take k (sort S)))"
      unfolding compute_iqr_def sort_values_def Let_def idx lower upper_odd
      using True by (simp add: q1 q3)
    also have "median_spec (drop (Suc k) (sort S)) - median_spec (take k (sort S)) = iqr_spec S"
      using True by (simp add: iqr_spec_def Let_def k_def)
    finally show ?thesis .
  next
    case False
    from assms have "k < length S" unfolding k_def by simp
    then have "drop k (sort S) \<noteq> []" by simp
    then have q3: "compute_median (drop k (sort S)) = Inr (median_spec (drop k (sort S)))"
      by (rule compute_median_value)
    have "compute_iqr S = Inr (median_spec (drop k (sort S)) - median_spec (take k (sort S)))"
      unfolding compute_iqr_def sort_values_def Let_def idx lower upper_even
      using False by (simp add: q1 q3)
    also have "median_spec (drop k (sort S)) - median_spec (take k (sort S)) = iqr_spec S"
      using False by (simp add: iqr_spec_def Let_def k_def)
    finally show ?thesis .
  qed
qed

lemma compute_mad_value:
  assumes "S \<noteq> []"
  shows "compute_mad S = Inr (mad_spec S)"
proof -
  have m: "compute_median S = Inr (median_spec S)"
    using assms by (rule compute_median_value)
  from assms have "deviations S (median_spec S) \<noteq> []"
    by (simp add: deviations_def)
  then have "compute_median (deviations S (median_spec S)) = Inr (median_spec (deviations S (median_spec S)))"
    by (rule compute_median_value)
  with m show ?thesis
    by (simp add: compute_mad_def mad_spec_def deviations_def)
qed

lemma mad_spec_nonneg:
  assumes "S \<noteq> []"
  shows "0 \<le> mad_spec S"
  unfolding mad_spec_def using assms by (intro median_spec_ge) auto

subsection \<open>Facts about the float64 estimators\<close>

lemma compute_median_f64_value:
  assumes "S \<noteq> []"
  shows "compute_median_f64 rd S = Inr (median_f64 rd S)"
proof -
  define k where "k = length S div 2"
  have idx: "int (length (sort S)) div 2 = int k"
    by (simp add: k_def zdiv_int)
  have hi: "iloc (sort S) (int k) = Inr (sort S ! k)"
    using assms by (intro iloc_nth) (simp add: k_def)
  show ?thesis
  proof (cases "length S mod 2 = 1")
    case True
    with hi idx show ?thesis
      by (simp add: compute_median_f64_def median_f64_def sort_values_def k_def Let_def)
  next
    case False
    with assms have pos: "1 \<le> k"
      unfolding k_def by (cases S) (auto simp: Suc_le_eq)
    then have eq: "int k - 1 = int (k - 1)"
      by (simp add: of_nat_diff)
    have "k - 1 < length (sort S)"
      using pos by (simp add: k_def)
    then have "iloc (sort S) (int (k - 1)) = Inr (sort S ! (k - 1))"
      by (rule iloc_nth)
    then have lo: "iloc (sort S) (int k - 1) = Inr (sort S ! (k - 1))"
      by (simp only: eq)
    have "compute_median_f64 rd S = Inr (f64_div2 rd (f64_add rd (sort S ! (k - 1)) (sort S ! k)))"
      unfolding compute_median_f64_def sort_values_def Let_def idx
      using False by (simp add: lo hi)
    also have "f64_div2 rd (f64_add rd (sort S ! (k - 1)) (sort S ! k)) = median_f64 rd S"
      using False by (simp add: median_f64_def k_def Let_def)
    finally show ?thesis .
  qed
qed






lemma median_f64_between:
  assumes rd: "rounding rd" and vals: "f64_values rd S" and ne: "S \<noteq> []"
    and sum: "length S mod 2 = 1 \<or>
              \<bar>rd (sort S ! (length S div 2 - 1) + sort S ! (length S div 2))\<bar> \<le> max_float"
  shows "\<exists>m. median_f64 rd S = Fin m \<and> Min (set S) \<le> m \<and> m \<le> Max (set S)"
proof -
  define k where "k = length S div 2"
  have mem: "sort S ! i \<in> set S" if "i < length S" for i
  proof -
    from that have "sort S ! i \<in> set (sort S)" by (intro nth_mem) simp
    then show ?thesis by simp
  qed
  have bounds: "Min (set S) \<le> x \<and> x \<le> Max (set S)" if "x \<in> set S" for x
    using that by simp
  have repr: "rd x = x \<and> \<bar>x\<bar> \<le> max_float" if "x \<in> set S" for x
    using vals that by (simp add: f64_values_def list_all_iff)
  from ne have kl: "k < length S" by (simp add: k_def)
  show ?thesis
  proof (cases "length S mod 2 = 1")
    case True
    from mem [OF kl] bounds have "Min (set S) \<le> sort S ! k \<and> sort S ! k \<le> Max (set S)"
      by blast
    with True show ?thesis
      by (simp add: median_f64_def Let_def k_def)
  next
    case False
    with ne have pos: "1 \<le> k"
      unfolding k_def by (cases S) (auto simp: Suc_le_eq)
    define lo where "lo = sort S ! (k - 1)"
    define hi where "hi = sort S ! k"
    from pos kl have lo_mem: "lo \<in> set S" unfolding lo_def by (intro mem) simp
    from kl have hi_mem: "hi \<in> set S" unfolding hi_def by (rule mem)
    have "sorted (sort S)" by simp
    moreover have "k - 1 \<le> k" by simp
    moreover from kl have "k < length (sort S)" by simp
    ultimately have "sort S ! (k - 1) \<le> sort S ! k" by (rule sorted_nth_mono)
    then have le: "lo \<le> hi" by (simp add: lo_def hi_def)
    define s where "s = rd (lo + hi)"
    from rd have mono: "\<And>x y. x \<le> y \<Longrightarrow> rd x \<le> rd y"
      and dbl: "\<And>x. rd x = x \<Longrightarrow> rd (2 * x) = 2 * x"
      by (simp_all add: rounding_def mono_def)
    from repr [OF lo_mem] have rlo: "rd lo = lo" and alo: "\<bar>lo\<bar> \<le> max_float" by simp_all
    from repr [OF hi_mem] have rhi: "rd hi = hi" and ahi: "\<bar>hi\<bar> \<le> max_float" by simp_all
    from le have "2 * lo \<le> lo + hi" by simp
    then have "rd (2 * lo) \<le> s" unfolding s_def by (rule mono)
    with dbl [OF rlo] have s_lo: "2 * lo \<le> s" by simp
    from le have "lo + hi \<le> 2 * hi" by simp
    then have "s \<le> rd (2 * hi)" unfolding s_def by (rule mono)
    with dbl [OF rhi] have s_hi: "s \<le> 2 * hi" by simp
    from sum False have fin: "\<bar>s\<bar> \<le> max_float"
      by (simp add: s_def lo_def hi_def k_def)
    then have add: "f64_add rd lo hi = Fin s"
      by (auto simp: f64_add_def f64_result_def Let_def s_def)
    define m where "m = rd (s / 2)"
    from s_lo have "lo \<le> s / 2" by simp
    then have "rd lo \<le> m" unfolding m_def by (rule mono)
    with rlo have m_lo: "lo \<le> m" by simp
    from s_hi have "s / 2 \<le> hi" by simp
    then have "m \<le> rd hi" unfolding m_def by (rule mono)
    with rhi have m_hi: "m \<le> hi" by simp
    from m_lo m_hi alo ahi have "\<bar>m\<bar> \<le> max_float" by linarith
    then have "f64_div2 rd (Fin s) = Fin m"
      by (auto simp: f64_result_def Let_def m_def)
    with add False have "median_f64 rd S = Fin m"
      by (simp add: median_f64_def Let_def lo_def hi_def k_def)
    moreover from bounds [OF lo_mem] m_lo have "Min (set S) \<le> m" by linarith
    moreover from bounds [OF hi_mem] m_hi have "m \<le> Max (set S)" by linarith
    ultimately show ?thesis by blast
  qed
qed




section \<open>The claims\<close>

text \<open>
  Claim C1. For every non-empty sequence \<open>S\<close> of real numbers, the median is computed by
  sorting \<open>S\<close> ascending and taking, with \<open>idx = n // 2\<close>, the element at position \<open>idx\<close>
  when \<open>n\<close> is odd, and the average of the elements at positions \<open>idx - 1\<close> and \<open>idx\<close> when
  \<open>n\<close> is even: the middle element, or the average of the two middle elements.
\<close>

theorem compute_median_sorted_middle:
  assumes "S \<noteq> []"
  shows "compute_median S =
           Inr (if length S mod 2 = 1 then sort S ! (length S div 2)
                else (sort S ! (length S div 2 - 1) + sort S ! (length S div 2)) / 2)"
  using compute_median_value [OF assms] by (simp add: median_spec_def Let_def)

theorem compute_median_sorted_middle_witness:
  "[5, 1, 4, 2, 3 :: real] \<noteq> [] \<and> compute_median [5, 1, 4, 2, 3] = Inr 3
   \<and> [4, 1, 3, 2 :: real] \<noteq> [] \<and> compute_median [4, 1, 3, 2] = Inr (5 / 2)"
  using compute_median_sorted_middle [of "[5, 1, 4, 2, 3]"]
    compute_median_sorted_middle [of "[4, 1, 3, 2]"]
  by simp

text \<open>
  Claim C2. For every sequence \<open>S\<close> of length \<open>n \<ge> 2\<close>, the interquartile range is computed
  by sorting \<open>S\<close> ascending, setting \<open>idx = n // 2\<close>, taking \<open>q1\<close> as the median of the first
  \<open>idx\<close> sorted elements and \<open>q3\<close> as the median of the sorted elements from position
  \<open>idx + 1\<close> on when \<open>n\<close> is odd (the middle element left out of both halves) and from
  position \<open>idx\<close> on when \<open>n\<close> is even; the result is \<open>q3 - q1\<close>. The right-hand side is
  the specification's wording, \<^const>\<open>iqr_spec\<close>.
\<close>

theorem compute_iqr_split:
  assumes "2 \<le> length S"
  shows "compute_iqr S = Inr (iqr_spec S)"
  using assms by (rule compute_iqr_value)

theorem compute_iqr_split_witness:
  "2 \<le> length [5, 1, 4, 2, 3 :: real] \<and> compute_iqr [5, 1, 4, 2, 3] = Inr 3
   \<and> 2 \<le> length [4, 1, 3, 2 :: real] \<and> compute_iqr [4, 1, 3, 2] = Inr 2"
  using compute_iqr_split [of "[5, 1, 4, 2, 3]"] compute_iqr_split [of "[4, 1, 3, 2]"]
  by (simp add: iqr_spec_def median_spec_def)

text \<open>
  Claim C3. For every non-empty sequence \<open>S\<close>, the median absolute deviation equals the
  median of the absolute deviations \<open>|v - median(S)|\<close> of the elements of \<open>S\<close> from the
  median of \<open>S\<close>, with no scaling factor. The right-hand side is the specification's
  wording, \<^const>\<open>mad_spec\<close>.
\<close>

theorem compute_mad_unscaled:
  assumes "S \<noteq> []"
  shows "compute_mad S = Inr (mad_spec S)"
  using assms by (rule compute_mad_value)

theorem compute_mad_unscaled_witness:
  "[5, 1, 4, 2, 3 :: real] \<noteq> [] \<and> compute_mad [5, 1, 4, 2, 3] = Inr 1"
  using compute_mad_unscaled [of "[5, 1, 4, 2, 3]"]
  by (simp add: mad_spec_def median_spec_def)

text \<open>
  Claim C4. On the empty sequence each of the three estimators fails with an error and
  returns no value (no sentinel): the median's positional read \<^verbatim>\<open>iloc[idx-1]\<close> of an empty
  Series raises \<^verbatim>\<open>IndexError\<close>, which is the invalid-input failure of the specification,
  and the other two estimators call the median on an empty Series first.
\<close>

theorem empty_input_fails:
  "compute_median [] = Inl IndexError \<and> compute_iqr [] = Inl IndexError
   \<and> compute_mad [] = Inl IndexError"
  by (simp add: compute_median_def compute_iqr_def compute_mad_def sort_values_def
      iloc_upto_def iloc_from_def iloc_def)

text \<open>
  Claim C5, as amended. For every single-element sequence \<open>[x]\<close> the interquartile range
  returns no value: \<open>idx = 0\<close>, the length is odd, the lower half \<^verbatim>\<open>sorted_a.iloc[:0]\<close> is
  empty and its median raises \<^verbatim>\<open>IndexError\<close>. (The claim as stated, a result of \<open>0\<close>, fails.)
\<close>

theorem compute_iqr_singleton_fails:
  "compute_iqr [x] = Inl IndexError"
  by (simp add: compute_iqr_def compute_median_def sort_values_def
      iloc_upto_def iloc_from_def iloc_def)

text \<open>The single-element sequence \<open>[7]\<close> of the specification's example does not give \<open>0\<close>.\<close>

theorem compute_iqr_singleton_counterexample:
  "compute_iqr [7] \<noteq> Inr 0"
  by (simp add: compute_iqr_def compute_median_def sort_values_def
      iloc_upto_def iloc_from_def iloc_def)




text \<open>
  Claim C7. For every non-empty sequence \<open>S\<close> of real numbers, the median absolute deviation
  returns a value, and that value is non-negative.
\<close>

theorem compute_mad_nonneg:
  assumes "S \<noteq> []"
  shows "\<exists>r. compute_mad S = Inr r \<and> 0 \<le> r"
  using compute_mad_value [OF assms] mad_spec_nonneg [OF assms] by simp

theorem compute_mad_nonneg_witness:
  "[1, 10, 4 :: real] \<noteq> [] \<and> (\<exists>r. compute_mad [1, 10, 4] = Inr r \<and> 0 \<le> r)"
  using compute_mad_nonneg [of "[1, 10, 4]"] by simp

text \<open>
  Claim C8. For every non-empty sequence \<open>S\<close> and every permutation \<open>S'\<close> of its elements,
  the median of \<open>S'\<close> is the median of \<open>S\<close>: both calls return the same value.
\<close>

theorem compute_median_permutation:
  assumes "S \<noteq> []" and "mset S' = mset S"
  shows "\<exists>m. compute_median S = Inr m \<and> compute_median S' = Inr m"
proof -
  from assms(2) have srt: "sort S' = sort S" by (rule sort_cong_mset)
  from assms(2) have len: "length S' = length S" by (rule mset_eq_length)
  have "compute_median S' = compute_median S"
    by (simp add: compute_median_def sort_values_def srt len)
  with compute_median_value [OF assms(1)] show ?thesis by simp
qed

theorem compute_median_permutation_witness:
  "[3, 1, 2 :: real] \<noteq> [] \<and> mset [2, 3, 1 :: real] = mset [3, 1, 2]
   \<and> (\<exists>m. compute_median [3, 1, 2] = Inr m \<and> compute_median [2, 3, 1] = Inr m)"
proof -
  have p: "mset [2, 3, 1 :: real] = mset [3, 1, 2]" by simp
  have n: "[3, 1, 2 :: real] \<noteq> []" by simp
  from compute_median_permutation [OF n p] n p show ?thesis by simp
qed

text \<open>
  Claim C9, as amended. For every non-empty sequence \<open>S\<close> of finite float64 values whose
  length is odd, or whose two middle sorted elements have a sum that does not overflow,
  the median returns a value that lies between the minimum and the maximum element of \<open>S\<close>.
\<close>

theorem compute_median_f64_between:
  assumes "rounding rd" and "f64_values rd S" and "S \<noteq> []"
    and "length S mod 2 = 1 \<or>
         \<bar>rd (sort S ! (length S div 2 - 1) + sort S ! (length S div 2))\<bar> \<le> max_float"
  shows "\<exists>m. compute_median_f64 rd S = Inr m
           \<and> f64_le (Fin (Min (set S))) m \<and> f64_le m (Fin (Max (set S)))"
proof -
  from median_f64_between [OF assms] obtain m
    where "median_f64 rd S = Fin m" "Min (set S) \<le> m" "m \<le> Max (set S)"
    by blast
  with compute_median_f64_value [OF assms(3), of rd] show ?thesis by simp
qed

theorem compute_median_f64_between_witness:
  "rounding id \<and> f64_values id [4, 1, 3, 2] \<and> [4, 1, 3, 2 :: real] \<noteq> []
   \<and> (\<exists>m. compute_median_f64 id [4, 1, 3, 2] = Inr m
          \<and> f64_le (Fin 1) m \<and> f64_le m (Fin 4))
   \<and> f64_values id [2 ^ 1023, 2 ^ 1023, 2 ^ 1023]
   \<and> (\<exists>m. compute_median_f64 id [2 ^ 1023, 2 ^ 1023, 2 ^ 1023] = Inr m
          \<and> f64_le (Fin (2 ^ 1023)) m \<and> f64_le m (Fin (2 ^ 1023)))"
proof -
  have rd: "rounding id"
    by (simp add: rounding_def mono_def)
  have v1: "f64_values id [4, 1, 3, 2]"
    by (simp add: f64_values_def max_float_def)
  have n1: "[4, 1, 3, 2 :: real] \<noteq> []" by simp
  have s1: "length [4, 1, 3, 2 :: real] mod 2 = 1 \<or>
            \<bar>id (sort [4, 1, 3, 2 :: real] ! (length [4, 1, 3, 2 :: real] div 2 - 1)
                  + sort [4, 1, 3, 2] ! (length [4, 1, 3, 2 :: real] div 2))\<bar> \<le> max_float"
    by (simp add: max_float_def)
  have v2: "f64_values id [2 ^ 1023, 2 ^ 1023, 2 ^ 1023]"
    by (simp add: f64_values_def max_float_def)
  have n2: "[2 ^ 1023, 2 ^ 1023, 2 ^ 1023 :: real] \<noteq> []" by simp
  have s2: "length [2 ^ 1023, 2 ^ 1023, 2 ^ 1023 :: real] mod 2 = 1 \<or>
            \<bar>id (sort [2 ^ 1023, 2 ^ 1023, 2 ^ 1023 :: real]
                    ! (length [2 ^ 1023, 2 ^ 1023, 2 ^ 1023 :: real] div 2 - 1)
                  + sort [2 ^ 1023, 2 ^ 1023, 2 ^ 1023]
                    ! (length [2 ^ 1023, 2 ^ 1023, 2 ^ 1023 :: real] div 2))\<bar> \<le> max_float"
    by simp
  have m1: "Min (set [4, 1, 3, 2 :: real]) = 1" and m2: "Max (set [4, 1, 3, 2 :: real]) = 4"
    by simp_all
  have m3: "Min (set [2 ^ 1023, 2 ^ 1023, 2 ^ 1023 :: real]) = 2 ^ 1023"
    and m4: "Max (set [2 ^ 1023, 2 ^ 1023, 2 ^ 1023 :: real]) = 2 ^ 1023"
    by simp_all
  from compute_median_f64_between [OF rd v1 n1 s1] compute_median_f64_between [OF rd v2 n2 s2]
    rd v1 v2 n1
  show ?thesis
    unfolding m1 m2 m3 m4 by blast
qed

text \<open>
  The claim as stated fails where the sum overflows: the median of two copies of
  \<^verbatim>\<open>2.0**1023\<close> is \<open>+inf\<close>, above the maximum.
\<close>

theorem compute_median_f64_between_counterexample:
  "f64_values id [2 ^ 1023, 2 ^ 1023] \<and> [2 ^ 1023, 2 ^ 1023 :: real] \<noteq> []
   \<and> compute_median_f64 id [2 ^ 1023, 2 ^ 1023] = Inr PInf
   \<and> \<not> f64_le PInf (Fin (Max (set [2 ^ 1023, 2 ^ 1023])))"
  by (simp add: f64_values_def compute_median_f64_def sort_values_def iloc_def f64_add_def
      f64_result_def max_float_def)

text \<open>
  Claim C10. For every non-empty sequence \<open>S\<close>, the median absolute deviation succeeds:
  the first median returns a value \<open>m\<close>, the sequence of deviations from \<open>m\<close> has the length
  of \<open>S\<close>, the second median returns a value on it, and that value is the result.
\<close>

theorem compute_mad_succeeds:
  assumes "S \<noteq> []"
  shows "\<exists>m r. compute_median S = Inr m \<and> length (deviations S m) = length S
           \<and> compute_median (deviations S m) = Inr r \<and> compute_mad S = Inr r"
proof -
  have m: "compute_median S = Inr (median_spec S)"
    using assms by (rule compute_median_value)
  have len: "length (deviations S (median_spec S)) = length S"
    by (simp add: deviations_def)
  with assms have "deviations S (median_spec S) \<noteq> []"
    by (simp add: deviations_def)
  then have d: "compute_median (deviations S (median_spec S))
                  = Inr (median_spec (deviations S (median_spec S)))"
    by (rule compute_median_value)
  from m d have "compute_mad S = Inr (median_spec (deviations S (median_spec S)))"
    by (simp add: compute_mad_def)
  with m len d show ?thesis by blast
qed

theorem compute_mad_succeeds_witness:
  "[7 :: real] \<noteq> [] \<and> (\<exists>m r. compute_median [7] = Inr m \<and> length (deviations [7] m) = length [7 :: real]
           \<and> compute_median (deviations [7] m) = Inr r \<and> compute_mad [7] = Inr r)"
  using compute_mad_succeeds [of "[7]"] by simp

end
